theory Spec2Isabelle
  imports Main "HOL-Library.Word" "HOL-Library.Sublist"
begin

section \<open>JavaScript values used by the chat controller\<close>

text \<open>
  A JavaScript string is a sequence of 16-bit code units. String literals of the source
  are ASCII; \<open>js\<close> turns an Isabelle literal into the corresponding code units.
\<close>

type_synonym jsstring = "16 word list"

definition js :: "string \<Rightarrow> jsstring" where
  "js s = map of_char s"

text \<open>
  \<^verbatim>\<open>String.prototype.trim\<close> removes leading and trailing WhiteSpace and LineTerminator
  code points. All of them lie in the Basic Multilingual Plane, so the test is on single
  code units.
\<close>

definition isWhiteSpace :: "16 word \<Rightarrow> bool" where
  "isWhiteSpace c \<longleftrightarrow>
     c = 0x09 \<or> c = 0x0A \<or> c = 0x0B \<or> c = 0x0C \<or> c = 0x0D \<or> c = 0x20 \<or> c = 0xA0 \<or>
     c = 0x1680 \<or> (0x2000 \<le> c \<and> c \<le> 0x200A) \<or> c = 0x2028 \<or> c = 0x2029 \<or>
     c = 0x202F \<or> c = 0x205F \<or> c = 0x3000 \<or> c = 0xFEFF"

definition trim :: "jsstring \<Rightarrow> jsstring" where
  "trim s = rev (dropWhile isWhiteSpace (rev (dropWhile isWhiteSpace s)))"

text \<open>
  \<^verbatim>\<open>encodeURIComponent\<close>: code units of the unreserved set are kept, every other code
  point is written as the percent-escaped octets of its UTF-8 encoding. A surrogate code
  unit that is not part of a pair makes the call throw a \<^verbatim>\<open>URIError\<close>.
\<close>

datatype jserror = URIError | TypeError | SyntaxError | NetworkError

definition uriUnreserved :: "16 word \<Rightarrow> bool" where
  "uriUnreserved c \<longleftrightarrow>
     (0x41 \<le> c \<and> c \<le> 0x5A) \<or> (0x61 \<le> c \<and> c \<le> 0x7A) \<or> (0x30 \<le> c \<and> c \<le> 0x39) \<or>
     c \<in> set (js ''-_.!~*'' @ [0x27] @ js ''()'')"

definition isLeadSurrogate :: "16 word \<Rightarrow> bool" where
  "isLeadSurrogate c \<longleftrightarrow> 0xD800 \<le> c \<and> c \<le> 0xDBFF"

definition isTrailSurrogate :: "16 word \<Rightarrow> bool" where
  "isTrailSurrogate c \<longleftrightarrow> 0xDC00 \<le> c \<and> c \<le> 0xDFFF"

definition hexDigit :: "nat \<Rightarrow> 16 word" where
  "hexDigit n = (if n < 10 then 0x30 + of_nat n else 0x41 + of_nat (n - 10))"

definition percentEscape :: "nat \<Rightarrow> jsstring" where
  "percentEscape b = [0x25, hexDigit (b div 16), hexDigit (b mod 16)]"

definition utf8Octets :: "nat \<Rightarrow> nat list" where
  "utf8Octets cp =
     (if cp < 0x80 then [cp]
      else if cp < 0x800 then [0xC0 + cp div 0x40, 0x80 + cp mod 0x40]
      else if cp < 0x10000 then
        [0xE0 + cp div 0x1000, 0x80 + (cp div 0x40) mod 0x40, 0x80 + cp mod 0x40]
      else
        [0xF0 + cp div 0x40000, 0x80 + (cp div 0x1000) mod 0x40,
         0x80 + (cp div 0x40) mod 0x40, 0x80 + cp mod 0x40])"

definition escapeCodePoint :: "nat \<Rightarrow> jsstring" where
  "escapeCodePoint cp = concat (map percentEscape (utf8Octets cp))"

fun encodeURIComponent :: "jsstring \<Rightarrow> jserror + jsstring" where
  "encodeURIComponent [] = Inr []"
| "encodeURIComponent (c # cs) =
     (if uriUnreserved c then
        (case encodeURIComponent cs of Inl e \<Rightarrow> Inl e | Inr r \<Rightarrow> Inr (c # r))
      else if isLeadSurrogate c then
        (case cs of
           [] \<Rightarrow> Inl URIError
         | d # ds \<Rightarrow>
             if isTrailSurrogate d then
               (case encodeURIComponent ds of
                  Inl e \<Rightarrow> Inl e
                | Inr r \<Rightarrow>
                    Inr (escapeCodePoint
                           ((unat c - 0xD800) * 0x400 + (unat d - 0xDC00) + 0x10000) @ r))
             else Inl URIError)
      else if isTrailSurrogate c then Inl URIError
      else
        (case encodeURIComponent cs of
           Inl e \<Rightarrow> Inl e
         | Inr r \<Rightarrow> Inr (escapeCodePoint (unat c) @ r)))"


text \<open>
  Values as the controller meets them: what \<^verbatim>\<open>response.json()\<close> can deliver, and
  \<^verbatim>\<open>undefined\<close>, which a property read yields for a missing property. A number is
  only carried, never computed with, so it is kept as its lexeme. An object is the list
  of its own properties (keys unique, as in a parsed object).
\<close>

datatype jsvalue =
    JUndefined
  | JNull
  | JBool bool
  | JNumber string
  | JString jsstring
  | JArray "jsvalue list"
  | JObject "(jsstring \<times> jsvalue) list"

text \<open>
  The property read \<^verbatim>\<open>data.answer\<close>: a \<^verbatim>\<open>TypeError\<close> on \<^verbatim>\<open>null\<close> and
  \<^verbatim>\<open>undefined\<close>, the own property of an object when there is one, and \<^verbatim>\<open>undefined\<close>
  otherwise (no prototype has a property of that name).
\<close>

fun answerOf :: "jsvalue \<Rightarrow> jserror + jsvalue" where
  "answerOf JUndefined = Inl TypeError"
| "answerOf JNull = Inl TypeError"
| "answerOf (JObject kvs) =
     Inr (case map_of kvs (js ''answer'') of Some v \<Rightarrow> v | None \<Rightarrow> JUndefined)"
| "answerOf v = Inr JUndefined"

section \<open>Messages and session state\<close>

text \<open>The source writes the sender as one of the strings \<^verbatim>\<open>'user'\<close> and \<^verbatim>\<open>'assistant'\<close>.\<close>

datatype sender = User | Assistant

text \<open>
  A message object. The field \<open>msg_id\<close> is the source's \<^verbatim>\<open>id\<close>, \<open>msg_text\<close> its
  \<^verbatim>\<open>text\<close>; \<open>timestamp\<close> is the time value of the \<^verbatim>\<open>Date\<close> object. The text of
  an assistant message is whatever \<^verbatim>\<open>data.answer\<close> evaluates to.
\<close>

record message =
  msg_id :: int
  msg_text :: jsvalue
  sender :: sender
  timestamp :: int

text \<open>A call of \<^verbatim>\<open>fetch\<close>: the URL and the method of its options object.\<close>

record request =
  url :: jsstring
  http_method :: jsstring

text \<open>
  How a call of \<^verbatim>\<open>fetch\<close> followed by \<^verbatim>\<open>response.json()\<close> ends: the fetch promise
  rejects, or it resolves with a response of some status code whose body either parses
  (\<open>Some data\<close>) or makes \<^verbatim>\<open>response.json()\<close> reject (\<open>None\<close>). Neither the status nor
  \<^verbatim>\<open>response.ok\<close> is read by the source.
\<close>

datatype fetch_result = NetworkFailure | Response nat "jsvalue option"

text \<open>
  The state of the component \<^verbatim>\<open>ChatInterface\<close> of \<^verbatim>\<open>src/frontend/src/app/page.tsx\<close>:
  the two \<^verbatim>\<open>useState\<close> cells, and the part of the environment the handlers act on:
  the calls of \<^verbatim>\<open>fetch\<close> that have not settled yet (\<open>inflight\<close>), every call made so far
  (\<open>sent\<close>), and the number of clock readings taken (\<open>reads\<close>).
  The component of \<^verbatim>\<open>src/unnamed/part_000\<close> has the additional cell \<^verbatim>\<open>isLoading\<close>.
\<close>

record chat =
  messages :: "message list"
  inputValue :: jsstring
  inflight :: "request list"
  sent :: "request list"
  reads :: nat

record chat_loading = chat +
  isLoading :: bool

text \<open>
  The clock: \<open>clk n\<close> is the millisecond value returned by the \<open>n\<close>-th reading
  (\<^verbatim>\<open>Date.now()\<close> or \<^verbatim>\<open>new Date()\<close>) whose result the component keeps.
\<close>

type_synonym clock = "nat \<Rightarrow> int"

definition setMessages :: "(message list \<Rightarrow> message list) \<Rightarrow> 'a chat_scheme \<Rightarrow> 'a chat_scheme" where
  "setMessages f s = s\<lparr>messages := f (messages s)\<rparr>"

definition setInputValue :: "jsstring \<Rightarrow> 'a chat_scheme \<Rightarrow> 'a chat_scheme" where
  "setInputValue v s = s\<lparr>inputValue := v\<rparr>"

definition setIsLoading :: "bool \<Rightarrow> 'a chat_loading_scheme \<Rightarrow> 'a chat_loading_scheme" where
  "setIsLoading b s = s\<lparr>isLoading := b\<rparr>"

definition tick :: "'a chat_scheme \<Rightarrow> 'a chat_scheme" where
  "tick s = s\<lparr>reads := Suc (reads s)\<rparr>"

definition greeting :: jsstring where
  "greeting = js ''Hello! I'' @ [0x27] @
     js ''m LineDrive AI, an AI assistant created to answer questions about MLB players. How can I help you today?''"

definition apology :: jsstring where
  "apology = js ''Sorry, I encountered an error. Please try again later.''"

definition initialMessages :: "clock \<Rightarrow> message list" where
  "initialMessages clk =
     [\<lparr>msg_id = 1, msg_text = JString greeting, sender = Assistant, timestamp = clk 0\<rparr>]"

definition init_page :: "clock \<Rightarrow> chat" where
  "init_page clk =
     \<lparr>messages = initialMessages clk, inputValue = [], inflight = [], sent = [], reads = 1\<rparr>"

definition init_part :: "clock \<Rightarrow> chat_loading" where
  "init_part clk =
     \<lparr>messages = initialMessages clk, inputValue = [], inflight = [], sent = [], reads = 1,
      isLoading = False\<rparr>"

section \<open>The handlers\<close>

text \<open>
  How a stretch of the body of the async function \<^verbatim>\<open>handleSend\<close> ends, with the state
  reached: suspended at an \<^verbatim>\<open>await\<close>, completed, or left by a throw.
\<close>

datatype 's completion = Awaiting 's | Returned 's | Thrown jserror 's

fun state_of :: "'s completion \<Rightarrow> 's" where
  "state_of (Awaiting s) = s"
| "state_of (Returned s) = s"
| "state_of (Thrown e s) = s"

text \<open>The call \<^verbatim>\<open>fetch(url, {method: 'POST'})\<close>: one more call in flight.\<close>

definition fetch :: "jsstring \<Rightarrow> 'a chat_scheme \<Rightarrow> 'a chat_scheme" where
  "fetch u s =
     (let r = \<lparr>url = u, http_method = js ''POST''\<rparr>
      in s\<lparr>inflight := inflight s @ [r], sent := sent s @ [r]\<rparr>)"

definition chatURL :: "jsstring \<Rightarrow> jsstring" where
  "chatURL q = js ''http://localhost:8000/chat?question='' @ q"

text \<open>
  The \<^verbatim>\<open>try\<close> block up to its first \<^verbatim>\<open>await\<close>: the argument of \<^verbatim>\<open>fetch\<close> is
  evaluated first, from the \<^verbatim>\<open>inputValue\<close> the handler closed over, and
  \<^verbatim>\<open>encodeURIComponent\<close> may throw there.
\<close>

definition tryCall :: "jsstring \<Rightarrow> 'a chat_scheme \<Rightarrow> 'a chat_scheme completion" where
  "tryCall inputValue0 s =
     (case encodeURIComponent inputValue0 of
        Inl e \<Rightarrow> Thrown e s
      | Inr q \<Rightarrow> Awaiting (fetch (chatURL q) s))"

text \<open>
  The rest of the \<^verbatim>\<open>try\<close> block, once the call has settled. In the object literal
  \<^verbatim>\<open>id: Date.now()\<close> is evaluated before \<^verbatim>\<open>text: data.answer\<close>.
\<close>

definition tryResume :: "clock \<Rightarrow> fetch_result \<Rightarrow> 'a chat_scheme \<Rightarrow> 'a chat_scheme completion" where
  "tryResume clk res s =
     (case res of
        NetworkFailure \<Rightarrow> Thrown NetworkError s
      | Response status body \<Rightarrow>
          (case body of
             None \<Rightarrow> Thrown SyntaxError s
           | Some data \<Rightarrow>
               (let s1 = tick s in
                case answerOf data of
                  Inl e \<Rightarrow> Thrown e s1
                | Inr a \<Rightarrow>
                    (let assistantResponse =
                           \<lparr>msg_id = clk (reads s), msg_text = a, sender = Assistant,
                            timestamp = clk (reads s1)\<rparr>
                     in Returned (setMessages (\<lambda>prev. prev @ [assistantResponse]) (tick s1))))))"

text \<open>The \<^verbatim>\<open>catch\<close> block (its \<^verbatim>\<open>console.error\<close> does not touch the state).\<close>

definition catchBlock :: "clock \<Rightarrow> 'a chat_scheme completion \<Rightarrow> 'a chat_scheme completion" where
  "catchBlock clk c =
     (case c of
        Thrown e s \<Rightarrow>
          (let errorResponse =
                 \<lparr>msg_id = clk (reads s), msg_text = JString apology, sender = Assistant,
                  timestamp = clk (Suc (reads s))\<rparr>
           in Returned (setMessages (\<lambda>prev. prev @ [errorResponse]) (tick (tick s))))
      | _ \<Rightarrow> c)"

text \<open>The \<^verbatim>\<open>finally\<close> block of \<^verbatim>\<open>src/unnamed/part_000\<close>; it does not run at a suspension.\<close>

definition finallyBlock :: "'a chat_loading_scheme completion \<Rightarrow> 'a chat_loading_scheme completion" where
  "finallyBlock c =
     (case c of
        Awaiting s \<Rightarrow> Awaiting s
      | Returned s \<Rightarrow> Returned (setIsLoading False s)
      | Thrown e s \<Rightarrow> Thrown e (setIsLoading False s))"

text \<open>
  \<^verbatim>\<open>handleSend\<close> of \<^verbatim>\<open>src/unnamed/part_000\<close>, run to its first suspension or to its end.
  The handler is the closure of the latest render: \<open>inputValue0\<close> and \<open>isLoading0\<close> are
  the values it closed over, which the state setters do not change.
\<close>

definition handleSend_part :: "clock \<Rightarrow> chat_loading \<Rightarrow> chat_loading completion" where
  "handleSend_part clk s =
     (let inputValue0 = inputValue s; isLoading0 = isLoading s in
      if trim inputValue0 = [] \<or> isLoading0 then Returned s
      else
        (let newUserMessage =
               \<lparr>msg_id = clk (reads s), msg_text = JString inputValue0, sender = User,
                timestamp = clk (Suc (reads s))\<rparr>;
             s1 = setMessages (\<lambda>prev. prev @ [newUserMessage]) (tick (tick s));
             s2 = setInputValue [] s1;
             s3 = setIsLoading True s2
         in finallyBlock (catchBlock clk (tryCall inputValue0 s3))))"

text \<open>The continuation of \<^verbatim>\<open>handleSend\<close> of \<^verbatim>\<open>src/unnamed/part_000\<close> after the call settled.\<close>

definition resume_part :: "clock \<Rightarrow> fetch_result \<Rightarrow> chat_loading \<Rightarrow> chat_loading completion" where
  "resume_part clk res s = finallyBlock (catchBlock clk (tryResume clk res s))"

text \<open>\<^verbatim>\<open>handleSend\<close> of \<^verbatim>\<open>src/frontend/src/app/page.tsx\<close>: no \<^verbatim>\<open>isLoading\<close>, no \<^verbatim>\<open>finally\<close>.\<close>

definition handleSend_page :: "clock \<Rightarrow> chat \<Rightarrow> chat completion" where
  "handleSend_page clk s =
     (let inputValue0 = inputValue s in
      if trim inputValue0 = [] then Returned s
      else
        (let newUserMessage =
               \<lparr>msg_id = clk (reads s), msg_text = JString inputValue0, sender = User,
                timestamp = clk (Suc (reads s))\<rparr>;
             s1 = setMessages (\<lambda>prev. prev @ [newUserMessage]) (tick (tick s));
             s2 = setInputValue [] s1
         in catchBlock clk (tryCall inputValue0 s2)))"

definition resume_page :: "clock \<Rightarrow> fetch_result \<Rightarrow> chat \<Rightarrow> chat completion" where
  "resume_page clk res s = catchBlock clk (tryResume clk res s)"

text \<open>
  \<^verbatim>\<open>handleKeyPress\<close>, the same text in both files: the result is whether
  \<^verbatim>\<open>e.preventDefault()\<close> was called, and the state after the unawaited call of
  \<^verbatim>\<open>handleSend\<close>.
\<close>

definition handleKeyPress_part :: "clock \<Rightarrow> jsstring \<Rightarrow> bool \<Rightarrow> chat_loading \<Rightarrow> bool \<times> chat_loading" where
  "handleKeyPress_part clk key shiftKey s =
     (if key = js ''Enter'' \<and> \<not> shiftKey then (True, state_of (handleSend_part clk s))
      else (False, s))"

definition handleKeyPress_page :: "clock \<Rightarrow> jsstring \<Rightarrow> bool \<Rightarrow> chat \<Rightarrow> bool \<times> chat" where
  "handleKeyPress_page clk key shiftKey s =
     (if key = js ''Enter'' \<and> \<not> shiftKey then (True, state_of (handleSend_page clk s))
      else (False, s))"

section \<open>Events\<close>

text \<open>
  What can happen to the component: the textarea's \<^verbatim>\<open>onChange\<close>, a click on the send
  button (whose \<^verbatim>\<open>onClick\<close> is dispatched only while the button is not disabled), a
  \<^verbatim>\<open>keydown\<close> in the textarea, and the settling of the \<open>i\<close>-th call in flight. Each
  handler reads the state committed by the latest render. A click on the disabled button
  and the settling of a call that is not in flight leave the state as it is.
\<close>

datatype event =
    Change jsstring
  | Click
  | KeyDown jsstring bool
  | Settle nat fetch_result

definition settled :: "nat \<Rightarrow> 'a chat_scheme \<Rightarrow> 'a chat_scheme" where
  "settled i s = s\<lparr>inflight := take i (inflight s) @ drop (Suc i) (inflight s)\<rparr>"

fun step_part :: "clock \<Rightarrow> event \<Rightarrow> chat_loading \<Rightarrow> chat_loading" where
  "step_part clk (Change v) s = setInputValue v s"
| "step_part clk Click s =
     (if trim (inputValue s) = [] \<or> isLoading s then s else state_of (handleSend_part clk s))"
| "step_part clk (KeyDown key shiftKey) s = snd (handleKeyPress_part clk key shiftKey s)"
| "step_part clk (Settle i res) s =
     (if i < length (inflight s) then state_of (resume_part clk res (settled i s)) else s)"

fun step_page :: "clock \<Rightarrow> event \<Rightarrow> chat \<Rightarrow> chat" where
  "step_page clk (Change v) s = setInputValue v s"
| "step_page clk Click s =
     (if trim (inputValue s) = [] then s else state_of (handleSend_page clk s))"
| "step_page clk (KeyDown key shiftKey) s = snd (handleKeyPress_page clk key shiftKey s)"
| "step_page clk (Settle i res) s =
     (if i < length (inflight s) then state_of (resume_page clk res (settled i s)) else s)"

fun run_part :: "clock \<Rightarrow> event list \<Rightarrow> chat_loading \<Rightarrow> chat_loading" where
  "run_part clk [] s = s"
| "run_part clk (e # es) s = run_part clk es (step_part clk e s)"

fun run_page :: "clock \<Rightarrow> event list \<Rightarrow> chat \<Rightarrow> chat" where
  "run_page clk [] s = s"
| "run_page clk (e # es) s = run_page clk es (step_page clk e s)"

inductive reachable_part :: "clock \<Rightarrow> chat_loading \<Rightarrow> bool" for clk where
  rp_init: "reachable_part clk (init_part clk)"
| rp_step: "reachable_part clk s \<Longrightarrow> reachable_part clk (step_part clk e s)"

inductive reachable_page :: "clock \<Rightarrow> chat \<Rightarrow> bool" for clk where
  rg_init: "reachable_page clk (init_page clk)"
| rg_step: "reachable_page clk s \<Longrightarrow> reachable_page clk (step_page clk e s)"

section \<open>Outcomes and the messages of a turn\<close>

text \<open>
  The outcomes at which the \<^verbatim>\<open>try\<close> block is left by a throw: \<^verbatim>\<open>fetch\<close> rejects,
  \<^verbatim>\<open>response.json()\<close> rejects, or \<^verbatim>\<open>data.answer\<close> is read from \<^verbatim>\<open>null\<close>.
\<close>

fun callFails :: "fetch_result \<Rightarrow> bool" where
  "callFails NetworkFailure = True"
| "callFails (Response status None) = True"
| "callFails (Response status (Some data)) = (data = JNull \<or> data = JUndefined)"

text \<open>The object literals \<^verbatim>\<open>errorResponse\<close> and \<^verbatim>\<open>newUserMessage\<close>, built at reading \<open>n\<close> of the clock.\<close>

definition errorMessage :: "clock \<Rightarrow> nat \<Rightarrow> message" where
  "errorMessage clk n =
     \<lparr>msg_id = clk n, msg_text = JString apology, sender = Assistant, timestamp = clk (Suc n)\<rparr>"

definition userMessage :: "clock \<Rightarrow> nat \<Rightarrow> jsstring \<Rightarrow> message" where
  "userMessage clk n v =
     \<lparr>msg_id = clk n, msg_text = JString v, sender = User, timestamp = clk (Suc n)\<rparr>"

section \<open>Concrete sessions\<close>

text \<open>A draft of three spaces, in either component, on a clock that advances at each reading.\<close>

definition blank_part :: chat_loading where
  "blank_part = (init_part int)\<lparr>inputValue := js ''   ''\<rparr>"

definition blank_page :: chat where
  "blank_page = (init_page int)\<lparr>inputValue := js ''   ''\<rparr>"

text \<open>The question and the service's reply of the home-run scenario.\<close>

definition home_run_question :: jsstring where
  "home_run_question = js ''Who hit the most home runs in 2023?''"

definition ohtani :: fetch_result where
  "ohtani = Response 200 (Some (JObject [(js ''answer'', JString (js ''Shohei Ohtani''))]))"

text \<open>Sessions with the home-run question in flight, and with a draft that is an unpaired surrogate.\<close>

definition asked_part :: chat_loading where
  "asked_part = run_part int [Change home_run_question, Click] (init_part int)"

definition asked_page :: chat where
  "asked_page = run_page int [Change home_run_question, Click] (init_page int)"

definition lone_surrogate :: jsstring where
  "lone_surrogate = [0xD83D]"

definition surrogate_part :: chat_loading where
  "surrogate_part = (init_part int)\<lparr>inputValue := lone_surrogate\<rparr>"

definition surrogate_page :: chat where
  "surrogate_page = (init_page int)\<lparr>inputValue := lone_surrogate\<rparr>"

text \<open>Replies of the service that are not of the expected shape or status.\<close>

definition server_error :: fetch_result where
  "server_error =
     Response 500 (Some (JObject [(js ''detail'', JString (js ''Internal Server Error''))]))"

definition numeric_answer :: fetch_result where
  "numeric_answer = Response 404 (Some (JObject [(js ''answer'', JNumber ''42'')]))"

text \<open>A draft with a leading space, and the request object of a question.\<close>

definition padded_question :: jsstring where
  "padded_question = js '' a''"

definition chatRequest :: "jsstring \<Rightarrow> request" where
  "chatRequest q = \<lparr>url = chatURL q, http_method = js ''POST''\<rparr>"

section \<open>Comparing the two components\<close>

text \<open>
  The events that call \<^verbatim>\<open>handleSend\<close>, and the runs of \<^verbatim>\<open>page.tsx\<close> in which no such
  event meets a non-blank draft while a call is in flight.
\<close>

fun submits :: "event \<Rightarrow> bool" where
  "submits Click = True"
| "submits (KeyDown key shiftKey) = (key = js ''Enter'' \<and> \<not> shiftKey)"
| "submits (Change v) = False"
| "submits (Settle i res) = False"

fun single_flight :: "clock \<Rightarrow> event list \<Rightarrow> chat \<Rightarrow> bool" where
  "single_flight clk [] p = True"
| "single_flight clk (e # es) p =
     ((submits e \<and> trim (inputValue p) \<noteq> [] \<longrightarrow> inflight p = []) \<and>
      single_flight clk es (step_page clk e p))"

text \<open>The state of \<^verbatim>\<open>part_000\<close> without its \<^verbatim>\<open>isLoading\<close> cell.\<close>

definition forget_loading :: "chat_loading \<Rightarrow> chat" where
  "forget_loading s =
     \<lparr>messages = messages s, inputValue = inputValue s, inflight = inflight s, sent = sent s,
      reads = reads s\<rparr>"

definition agree :: "chat_loading \<Rightarrow> chat \<Rightarrow> bool" where
  "agree s p \<longleftrightarrow>
     forget_loading s = p \<and> (isLoading s \<longleftrightarrow> inflight s \<noteq> []) \<and> length (inflight s) \<le> 1"

text \<open>Two drafts sent in a row, the second with the Enter key while the first call is in flight.\<close>

definition two_sends :: "event list" where
  "two_sends =
     [Change home_run_question, Click, Change (js ''And in 2022?''), KeyDown (js ''Enter'') False]"

text \<open>
  A second draft typed while the home-run question is in flight, in either component.
\<close>

definition second_draft_page :: chat where
  "second_draft_page = step_page int (Change (js ''And in 2022?'')) asked_page"

definition second_draft_part :: chat_loading where
  "second_draft_part = step_part int (Change (js ''And in 2022?'')) asked_part"

text \<open>A clock whose readings all fall into the same millisecond.\<close>

definition same_millisecond :: clock where
  "same_millisecond n = 1700000000000"

text \<open>
  The ids of a log are that of the greeting and clock readings taken in increasing
  order, all after the first reading and before the next one.
\<close>

definition ids_from_clock :: "clock \<Rightarrow> 'a chat_scheme \<Rightarrow> bool" where
  "ids_from_clock clk s \<longleftrightarrow>
     0 < reads s \<and>
     (\<exists>ks. map msg_id (messages s) = 1 # map clk ks \<and> sorted_wrt (<) ks \<and>
           list_all (\<lambda>k. 0 < k \<and> k < reads s) ks)"

text \<open>A step appends messages whose ids are fresh readings, taken in increasing order.\<close>

definition reads_on :: "clock \<Rightarrow> 'a chat_scheme \<Rightarrow> 'b chat_scheme \<Rightarrow> bool" where
  "reads_on clk s s' \<longleftrightarrow>
     (\<exists>ks. map msg_id (messages s') = map msg_id (messages s) @ map clk ks \<and> sorted_wrt (<) ks \<and>
           list_all (\<lambda>k. reads s \<le> k \<and> k < reads s') ks \<and> reads s \<le> reads s')"

section \<open>Basic facts\<close>

lemmas setter_defs = setMessages_def setInputValue_def setIsLoading_def tick_def fetch_def settled_def

lemmas handler_defs =
  handleSend_part_def handleSend_page_def resume_part_def resume_page_def
  handleKeyPress_part_def handleKeyPress_page_def
  tryCall_def tryResume_def catchBlock_def finallyBlock_def

lemma trim_Nil_iff: "trim s = [] \<longleftrightarrow> (\<forall>c\<in>set s. isWhiteSpace c)"
proof -
  have "dropWhile isWhiteSpace (rev (dropWhile isWhiteSpace s)) = [] \<longleftrightarrow> dropWhile isWhiteSpace s = []"
  proof (cases "dropWhile isWhiteSpace s")
    case Nil
    show ?thesis unfolding Nil by simp
  next
    case (Cons a as)
    then have "\<not> isWhiteSpace a" using hd_dropWhile[of isWhiteSpace s] by simp
    moreover have "a \<in> set (rev (dropWhile isWhiteSpace s))" using Cons by simp
    ultimately show ?thesis using Cons by (auto simp: dropWhile_eq_Nil_conv)
  qed
  then show ?thesis by (simp add: trim_def dropWhile_eq_Nil_conv)
qed

lemma handleSend_part_blank: "trim (inputValue s) = [] \<Longrightarrow> handleSend_part clk s = Returned s"
  by (simp add: handleSend_part_def)

lemma handleSend_page_blank: "trim (inputValue s) = [] \<Longrightarrow> handleSend_page clk s = Returned s"
  by (simp add: handleSend_page_def)

lemma handleSend_part_loading: "isLoading s \<Longrightarrow> handleSend_part clk s = Returned s"
  by (simp add: handleSend_part_def)

section \<open>What a settled call and an admitted turn do\<close>

lemma answerOf_throws: "data = JNull \<or> data = JUndefined \<Longrightarrow> answerOf data = Inl TypeError"
  by auto

lemma answerOf_value: "data \<noteq> JNull \<Longrightarrow> data \<noteq> JUndefined \<Longrightarrow> \<exists>a. answerOf data = Inr a"
  by (cases data) auto

lemma resume_part_fails:
  assumes "callFails res"
  shows "\<exists>n. resume_part clk res s =
           Returned (s\<lparr>messages := messages s @ [errorMessage clk n], reads := n + 2, isLoading := False\<rparr>)"
proof (cases res)
  case NetworkFailure
  then show ?thesis
    by (intro exI[of _ "reads s"]) (simp add: handler_defs setter_defs errorMessage_def)
next
  case (Response status body)
  show ?thesis
  proof (cases body)
    case None
    with Response show ?thesis
      by (intro exI[of _ "reads s"]) (simp add: handler_defs setter_defs errorMessage_def)
  next
    case (Some data)
    with Response assms have "answerOf data = Inl TypeError" by (simp add: answerOf_throws)
    with Response Some show ?thesis
      by (intro exI[of _ "Suc (reads s)"]) (simp add: handler_defs setter_defs errorMessage_def)
  qed
qed

lemma resume_page_fails:
  assumes "callFails res"
  shows "\<exists>n. resume_page clk res s =
           Returned (s\<lparr>messages := messages s @ [errorMessage clk n], reads := n + 2\<rparr>)"
proof (cases res)
  case NetworkFailure
  then show ?thesis
    by (intro exI[of _ "reads s"]) (simp add: handler_defs setter_defs errorMessage_def)
next
  case (Response status body)
  show ?thesis
  proof (cases body)
    case None
    with Response show ?thesis
      by (intro exI[of _ "reads s"]) (simp add: handler_defs setter_defs errorMessage_def)
  next
    case (Some data)
    with Response assms have "answerOf data = Inl TypeError" by (simp add: answerOf_throws)
    with Response Some show ?thesis
      by (intro exI[of _ "Suc (reads s)"]) (simp add: handler_defs setter_defs errorMessage_def)
  qed
qed

lemma resume_part_answer:
  assumes "answerOf data = Inr a"
  shows "resume_part clk (Response status (Some data)) s =
           Returned (s\<lparr>messages := messages s @
                        [\<lparr>msg_id = clk (reads s), msg_text = a, sender = Assistant,
                          timestamp = clk (Suc (reads s))\<rparr>],
                      reads := reads s + 2, isLoading := False\<rparr>)"
  using assms by (simp add: handler_defs setter_defs)

lemma resume_page_answer:
  assumes "answerOf data = Inr a"
  shows "resume_page clk (Response status (Some data)) s =
           Returned (s\<lparr>messages := messages s @
                        [\<lparr>msg_id = clk (reads s), msg_text = a, sender = Assistant,
                          timestamp = clk (Suc (reads s))\<rparr>],
                      reads := reads s + 2\<rparr>)"
  using assms by (simp add: handler_defs setter_defs)

lemma callFails_cases:
  "callFails res \<or> (\<exists>status data a. res = Response status (Some data) \<and> answerOf data = Inr a)"
proof (cases res)
  case NetworkFailure
  then show ?thesis by simp
next
  case (Response status body)
  then show ?thesis
    by (cases body) (auto dest: answerOf_value)
qed

lemma resume_part_returns: "\<exists>s'. resume_part clk res s = Returned s' \<and> isLoading s' = False"
  using callFails_cases[of res]
proof
  assume "callFails res"
  from resume_part_fails[OF this, of clk s] show ?thesis by auto
next
  assume "\<exists>status data a. res = Response status (Some data) \<and> answerOf data = Inr a"
  then obtain status data a where "res = Response status (Some data)" "answerOf data = Inr a" by blast
  then show ?thesis using resume_part_answer[of data a clk status s] by simp
qed

lemma resume_page_returns: "\<exists>s'. resume_page clk res s = Returned s'"
  using callFails_cases[of res]
proof
  assume "callFails res"
  from resume_page_fails[OF this, of clk s] show ?thesis by auto
next
  assume "\<exists>status data a. res = Response status (Some data) \<and> answerOf data = Inr a"
  then obtain status data a where "res = Response status (Some data)" "answerOf data = Inr a" by blast
  then show ?thesis using resume_page_answer[of data a clk status s] by simp
qed

lemma handleSend_part_admitted:
  assumes "trim (inputValue s) \<noteq> []" and "\<not> isLoading s"
  shows "handleSend_part clk s =
     (case encodeURIComponent (inputValue s) of
        Inl e \<Rightarrow>
          Returned (s\<lparr>messages := messages s @
                        [userMessage clk (reads s) (inputValue s), errorMessage clk (reads s + 2)],
                      inputValue := [], reads := reads s + 4, isLoading := False\<rparr>)
      | Inr q \<Rightarrow>
          Awaiting (s\<lparr>messages := messages s @ [userMessage clk (reads s) (inputValue s)],
                      inputValue := [],
                      inflight := inflight s @ [\<lparr>url = chatURL q, http_method = js ''POST''\<rparr>],
                      sent := sent s @ [\<lparr>url = chatURL q, http_method = js ''POST''\<rparr>],
                      reads := reads s + 2, isLoading := True\<rparr>))"
  using assms
  by (simp add: handler_defs setter_defs userMessage_def errorMessage_def Let_def split: sum.splits)

lemma handleSend_page_admitted:
  assumes "trim (inputValue s) \<noteq> []"
  shows "handleSend_page clk s =
     (case encodeURIComponent (inputValue s) of
        Inl e \<Rightarrow>
          Returned (s\<lparr>messages := messages s @
                        [userMessage clk (reads s) (inputValue s), errorMessage clk (reads s + 2)],
                      inputValue := [], reads := reads s + 4\<rparr>)
      | Inr q \<Rightarrow>
          Awaiting (s\<lparr>messages := messages s @ [userMessage clk (reads s) (inputValue s)],
                      inputValue := [],
                      inflight := inflight s @ [\<lparr>url = chatURL q, http_method = js ''POST''\<rparr>],
                      sent := sent s @ [\<lparr>url = chatURL q, http_method = js ''POST''\<rparr>],
                      reads := reads s + 2\<rparr>))"
  using assms
  by (simp add: handler_defs setter_defs userMessage_def errorMessage_def Let_def split: sum.splits)

lemma handleSend_part_never_throws: "handleSend_part clk s \<noteq> Thrown e s'"
proof (cases "trim (inputValue s) = [] \<or> isLoading s")
  case True
  then have "handleSend_part clk s = Returned s"
    by (auto simp: handleSend_part_blank handleSend_part_loading)
  then show ?thesis by simp
next
  case False
  then have "trim (inputValue s) \<noteq> []" "\<not> isLoading s" by simp_all
  from handleSend_part_admitted[OF this, of clk] show ?thesis
    by (cases "encodeURIComponent (inputValue s)") simp_all
qed

lemma handleSend_page_never_throws: "handleSend_page clk s \<noteq> Thrown e s'"
proof (cases "trim (inputValue s) = []")
  case True
  then show ?thesis by (simp add: handleSend_page_blank)
next
  case False
  from handleSend_page_admitted[OF this, of clk] show ?thesis
    by (cases "encodeURIComponent (inputValue s)") simp_all
qed

section \<open>Blank drafts\<close>

text \<open>
  C6. When every code unit of the draft is white space (in particular when the draft is
  empty), \<^verbatim>\<open>handleSend\<close> of either file returns at once with the state as it was: no
  message, no change of \<^verbatim>\<open>isLoading\<close>, no call of \<^verbatim>\<open>fetch\<close>, nothing thrown. The same
  holds when it is reached through the Enter key or the send button.
\<close>

theorem C6_blank_draft_is_noop:
  assumes "\<forall>c\<in>set (inputValue s). isWhiteSpace c" and "\<forall>c\<in>set (inputValue p). isWhiteSpace c"
  shows "handleSend_part clk s = Returned s \<and> handleSend_page clk p = Returned p \<and>
         step_part clk (KeyDown (js ''Enter'') False) s = s \<and>
         step_page clk (KeyDown (js ''Enter'') False) p = p \<and>
         step_part clk Click s = s \<and> step_page clk Click p = p"
proof -
  from assms have "trim (inputValue s) = []" "trim (inputValue p) = []"
    by (simp_all add: trim_Nil_iff)
  then show ?thesis
    by (simp add: handleSend_part_blank handleSend_page_blank handleKeyPress_part_def handleKeyPress_page_def)
qed

theorem C6_blank_draft_witness:
  "list_all isWhiteSpace (inputValue blank_part) \<and> list_all isWhiteSpace (inputValue blank_page) \<and>
   handleSend_part int blank_part = Returned blank_part \<and>
   handleSend_page int blank_page = Returned blank_page \<and>
   handleSend_part int (init_part int) = Returned (init_part int) \<and>
   handleSend_page int (init_page int) = Returned (init_page int)"
proof -
  have a: "\<forall>c\<in>set (inputValue blank_part). isWhiteSpace c"
    by (simp add: blank_part_def js_def isWhiteSpace_def)
  have b: "\<forall>c\<in>set (inputValue blank_page). isWhiteSpace c"
    by (simp add: blank_page_def js_def isWhiteSpace_def)
  have c: "\<forall>c\<in>set (inputValue (init_part int)). isWhiteSpace c"
    by (simp add: init_part_def)
  have d: "\<forall>c\<in>set (inputValue (init_page int)). isWhiteSpace c"
    by (simp add: init_page_def)
  show ?thesis
    using a b C6_blank_draft_is_noop[OF a b, of int] C6_blank_draft_is_noop[OF c d, of int]
    by (simp add: list_all_iff)
qed

section \<open>The home-run scenario\<close>

lemma trim_home_run_question: "trim home_run_question \<noteq> []"
  by (simp add: trim_Nil_iff home_run_question_def js_def isWhiteSpace_def)

lemma encode_home_run_question:
  "encodeURIComponent home_run_question =
     Inr (js ''Who%20hit%20the%20most%20home%20runs%20in%202023%3F'')"
  unfolding home_run_question_def by code_simp

lemma answerOf_ohtani:
  "answerOf (JObject [(js ''answer'', JString (js ''Shohei Ohtani''))]) =
     Inr (JString (js ''Shohei Ohtani''))"
  by simp

text \<open>
  C4. From the seed state, whose log has one message, typing the question, sending it and
  receiving the reply \<^verbatim>\<open>{answer: "Shohei Ohtani"}\<close> gives a log of three messages: the
  greeting, a user message with the question as typed, and an assistant message with the
  answer as received. \<^verbatim>\<open>isLoading\<close> is true while the call is in flight and false at
  the end.
\<close>

theorem C4_home_run_scenario:
  "messages (run_part clk [Change home_run_question, Click, Settle 0 ohtani] (init_part clk)) =
     initialMessages clk @
     [\<lparr>msg_id = clk 1, msg_text = JString home_run_question, sender = User, timestamp = clk 2\<rparr>,
      \<lparr>msg_id = clk 3, msg_text = JString (js ''Shohei Ohtani''), sender = Assistant,
       timestamp = clk 4\<rparr>] \<and>
   length (messages (init_part clk)) = 1 \<and>
   length (messages (run_part clk [Change home_run_question, Click, Settle 0 ohtani] (init_part clk))) = 3 \<and>
   isLoading (run_part clk [Change home_run_question, Click, Settle 0 ohtani] (init_part clk)) = False \<and>
   isLoading (run_part clk [Change home_run_question, Click] (init_part clk)) = True"
  by (simp add: trim_home_run_question encode_home_run_question ohtani_def answerOf_ohtani
      init_part_def initialMessages_def handler_defs setter_defs Let_def eval_nat_numeral)

section \<open>Evaluated sessions and facts about the encoding\<close>

lemma asked_part_eq:
  "asked_part =
     \<lparr>messages = initialMessages int @ [userMessage int 1 home_run_question],
      inputValue = [],
      inflight = [chatRequest (js ''Who%20hit%20the%20most%20home%20runs%20in%202023%3F'')],
      sent = [chatRequest (js ''Who%20hit%20the%20most%20home%20runs%20in%202023%3F'')],
      reads = 3, isLoading = True\<rparr>"
  by (simp add: asked_part_def trim_home_run_question encode_home_run_question chatRequest_def
      init_part_def userMessage_def handler_defs setter_defs Let_def)

lemma asked_page_eq:
  "asked_page =
     \<lparr>messages = initialMessages int @ [userMessage int 1 home_run_question],
      inputValue = [],
      inflight = [chatRequest (js ''Who%20hit%20the%20most%20home%20runs%20in%202023%3F'')],
      sent = [chatRequest (js ''Who%20hit%20the%20most%20home%20runs%20in%202023%3F'')],
      reads = 3\<rparr>"
  by (simp add: asked_page_def trim_home_run_question encode_home_run_question chatRequest_def
      init_page_def userMessage_def handler_defs setter_defs Let_def)

lemma trim_lone_surrogate: "trim lone_surrogate \<noteq> []"
  by (simp add: trim_Nil_iff lone_surrogate_def isWhiteSpace_def)

lemma encode_lone_surrogate: "encodeURIComponent lone_surrogate = Inl URIError"
  unfolding lone_surrogate_def by code_simp

lemma escapeCodePoint_not_Nil: "escapeCodePoint cp \<noteq> []"
  by (simp add: escapeCodePoint_def utf8Octets_def percentEscape_def)

lemma encodeURIComponent_not_Nil:
  assumes "encodeURIComponent x = Inr q" and "x \<noteq> []"
  shows "q \<noteq> []"
proof (cases x)
  case Nil
  with assms show ?thesis by simp
next
  case (Cons c cs)
  with assms(1) show ?thesis
    by (auto simp: escapeCodePoint_not_Nil split: if_splits sum.splits list.splits)
qed

lemma trim_not_Nil: "trim x \<noteq> [] \<Longrightarrow> x \<noteq> []"
  by (auto simp: trim_def)

section \<open>Failed calls\<close>

text \<open>
  C5. When the call of an admitted turn fails (\<^verbatim>\<open>fetch\<close> rejects, the body does not
  parse, or reading \<^verbatim>\<open>data.answer\<close> throws), the continuation of \<^verbatim>\<open>handleSend\<close>
  completes normally, having appended exactly one assistant message with the fixed apology
  text; in \<^verbatim>\<open>src/unnamed/part_000\<close> it leaves \<^verbatim>\<open>isLoading\<close> false, as it does after
  every outcome \<open>res'\<close>. Neither \<^verbatim>\<open>handleSend\<close> nor its continuation is ever left
  by a throw. The same holds when \<^verbatim>\<open>encodeURIComponent\<close> throws before
  the call is made: the user message and the apology are appended in one run.
\<close>

theorem C5_failed_call_gives_apology:
  assumes "callFails res"
  shows "(\<exists>n. resume_part clk res s =
            Returned (s\<lparr>messages := messages s @ [errorMessage clk n], reads := n + 2,
                       isLoading := False\<rparr>)) \<and>
         (\<exists>n. resume_page clk res p =
            Returned (p\<lparr>messages := messages p @ [errorMessage clk n], reads := n + 2\<rparr>)) \<and>
         (\<exists>s'. resume_part clk res' s = Returned s' \<and> isLoading s' = False) \<and>
         (\<exists>p'. resume_page clk res' p = Returned p') \<and>
         handleSend_part clk s \<noteq> Thrown e' s'' \<and> handleSend_page clk p \<noteq> Thrown e' p'' \<and>
         (trim (inputValue s) \<noteq> [] \<and> \<not> isLoading s \<and> encodeURIComponent (inputValue s) = Inl e \<longrightarrow>
            handleSend_part clk s =
              Returned (s\<lparr>messages := messages s @
                            [userMessage clk (reads s) (inputValue s), errorMessage clk (reads s + 2)],
                         inputValue := [], reads := reads s + 4, isLoading := False\<rparr>)) \<and>
         (trim (inputValue p) \<noteq> [] \<and> encodeURIComponent (inputValue p) = Inl e \<longrightarrow>
            handleSend_page clk p =
              Returned (p\<lparr>messages := messages p @
                            [userMessage clk (reads p) (inputValue p), errorMessage clk (reads p + 2)],
                         inputValue := [], reads := reads p + 4\<rparr>)) \<and>
         msg_text (errorMessage clk m) =
           JString (js ''Sorry, I encountered an error. Please try again later.'') \<and>
         sender (errorMessage clk m) = Assistant"
proof -
  have 1: "\<exists>n. resume_part clk res s =
            Returned (s\<lparr>messages := messages s @ [errorMessage clk n], reads := n + 2,
                       isLoading := False\<rparr>)"
    by (rule resume_part_fails[OF assms])
  have 2: "\<exists>n. resume_page clk res p =
            Returned (p\<lparr>messages := messages p @ [errorMessage clk n], reads := n + 2\<rparr>)"
    by (rule resume_page_fails[OF assms])
  have 3: "\<exists>s'. resume_part clk res' s = Returned s' \<and> isLoading s' = False"
    by (rule resume_part_returns)
  have 4: "trim (inputValue s) \<noteq> [] \<and> \<not> isLoading s \<and> encodeURIComponent (inputValue s) = Inl e \<longrightarrow>
            handleSend_part clk s =
              Returned (s\<lparr>messages := messages s @
                            [userMessage clk (reads s) (inputValue s), errorMessage clk (reads s + 2)],
                         inputValue := [], reads := reads s + 4, isLoading := False\<rparr>)"
    by (simp add: handleSend_part_admitted)
  have 5: "trim (inputValue p) \<noteq> [] \<and> encodeURIComponent (inputValue p) = Inl e \<longrightarrow>
            handleSend_page clk p =
              Returned (p\<lparr>messages := messages p @
                            [userMessage clk (reads p) (inputValue p), errorMessage clk (reads p + 2)],
                         inputValue := [], reads := reads p + 4\<rparr>)"
    by (simp add: handleSend_page_admitted)
  have 6: "msg_text (errorMessage clk m) =
           JString (js ''Sorry, I encountered an error. Please try again later.'') \<and>
         sender (errorMessage clk m) = Assistant"
    by (simp add: errorMessage_def apology_def)
  have 7: "\<exists>p'. resume_page clk res' p = Returned p'"
    by (rule resume_page_returns)
  have 8: "handleSend_part clk s \<noteq> Thrown e' s''" "handleSend_page clk p \<noteq> Thrown e' p''"
    by (rule handleSend_part_never_throws, rule handleSend_page_never_throws)
  from 1 2 3 4 5 6 7 8 show ?thesis by blast
qed

theorem C5_failed_call_witness:
  "callFails NetworkFailure \<and>
   (\<exists>n. resume_part int NetworkFailure asked_part =
      Returned (asked_part\<lparr>messages := messages asked_part @ [errorMessage int n], reads := n + 2,
                 isLoading := False\<rparr>)) \<and>
   (\<exists>n. resume_page int NetworkFailure asked_page =
      Returned (asked_page\<lparr>messages := messages asked_page @ [errorMessage int n], reads := n + 2\<rparr>)) \<and>
   (\<exists>s'. resume_part int ohtani asked_part = Returned s' \<and> isLoading s' = False) \<and>
   callFails (Response 200 None) \<and>
   trim (inputValue surrogate_part) \<noteq> [] \<and> \<not> isLoading surrogate_part \<and>
   encodeURIComponent (inputValue surrogate_part) = Inl URIError \<and>
   trim (inputValue surrogate_page) \<noteq> [] \<and>
   encodeURIComponent (inputValue surrogate_page) = Inl URIError \<and>
   handleSend_part int surrogate_part =
     Returned (surrogate_part\<lparr>messages := messages surrogate_part @
                   [userMessage int (reads surrogate_part) (inputValue surrogate_part),
                    errorMessage int (reads surrogate_part + 2)],
                inputValue := [], reads := reads surrogate_part + 4, isLoading := False\<rparr>) \<and>
   handleSend_page int surrogate_page =
     Returned (surrogate_page\<lparr>messages := messages surrogate_page @
                   [userMessage int (reads surrogate_page) (inputValue surrogate_page),
                    errorMessage int (reads surrogate_page + 2)],
                inputValue := [], reads := reads surrogate_page + 4\<rparr>)"
proof -
  have h: "callFails NetworkFailure" "callFails (Response 200 None)" by simp_all
  have a: "trim (inputValue surrogate_part) \<noteq> []" "\<not> isLoading surrogate_part"
      "encodeURIComponent (inputValue surrogate_part) = Inl URIError"
    by (simp_all add: surrogate_part_def init_part_def trim_lone_surrogate encode_lone_surrogate)
  have b: "trim (inputValue surrogate_page) \<noteq> []"
      "encodeURIComponent (inputValue surrogate_page) = Inl URIError"
    by (simp_all add: surrogate_page_def init_page_def trim_lone_surrogate encode_lone_surrogate)
  show ?thesis
    using h a b
      C5_failed_call_gives_apology[OF h(1), where clk = int and s = asked_part and p = asked_page
        and res' = ohtani and e = URIError]
      C5_failed_call_gives_apology[OF h(2), where clk = int and s = surrogate_part
        and p = surrogate_page and res' = ohtani and e = URIError]
    by simp
qed

section \<open>Responses of unexpected status or shape\<close>

text \<open>
  C3, as the code has it. The apology is appended when \<^verbatim>\<open>fetch\<close> rejects, when the body
  does not parse, or when the parsed body is \<^verbatim>\<open>null\<close>. Every other response, whatever
  its status code, is handled as a success: the appended assistant message has as its text
  the value of the body's \<^verbatim>\<open>answer\<close> property, which is \<^verbatim>\<open>undefined\<close> when the body has
  no such property and need not be a string.
\<close>

theorem C3_status_and_shape_unchecked:
  "(callFails res \<longrightarrow>
      (\<exists>n. messages (state_of (resume_part clk res s)) = messages s @ [errorMessage clk n]) \<and>
      (\<exists>n. messages (state_of (resume_page clk res p)) = messages p @ [errorMessage clk n])) \<and>
   (\<not> callFails res \<longrightarrow>
      (\<exists>status data a. res = Response status (Some data) \<and> answerOf data = Inr a \<and>
         messages (state_of (resume_part clk res s)) =
           messages s @ [\<lparr>msg_id = clk (reads s), msg_text = a, sender = Assistant,
                          timestamp = clk (Suc (reads s))\<rparr>] \<and>
         messages (state_of (resume_page clk res p)) =
           messages p @ [\<lparr>msg_id = clk (reads p), msg_text = a, sender = Assistant,
                          timestamp = clk (Suc (reads p))\<rparr>])) \<and>
   (map_of kvs (js ''answer'') = None \<longrightarrow> answerOf (JObject kvs) = Inr JUndefined) \<and>
   (map_of kvs (js ''answer'') = Some v \<longrightarrow> answerOf (JObject kvs) = Inr v)"
proof -
  have 1: "callFails res \<longrightarrow>
      (\<exists>n. messages (state_of (resume_part clk res s)) = messages s @ [errorMessage clk n]) \<and>
      (\<exists>n. messages (state_of (resume_page clk res p)) = messages p @ [errorMessage clk n])"
  proof
    assume f: "callFails res"
    from resume_part_fails[OF f, of clk s] obtain n where
      "resume_part clk res s =
         Returned (s\<lparr>messages := messages s @ [errorMessage clk n], reads := n + 2, isLoading := False\<rparr>)"
      by blast
    then have a: "messages (state_of (resume_part clk res s)) = messages s @ [errorMessage clk n]"
      by simp
    from resume_page_fails[OF f, of clk p] obtain k where
      "resume_page clk res p =
         Returned (p\<lparr>messages := messages p @ [errorMessage clk k], reads := k + 2\<rparr>)"
      by blast
    then have b: "messages (state_of (resume_page clk res p)) = messages p @ [errorMessage clk k]"
      by simp
    from a b show "(\<exists>n. messages (state_of (resume_part clk res s)) = messages s @ [errorMessage clk n]) \<and>
      (\<exists>n. messages (state_of (resume_page clk res p)) = messages p @ [errorMessage clk n])"
      by blast
  qed
  have 2: "\<not> callFails res \<longrightarrow>
      (\<exists>status data a. res = Response status (Some data) \<and> answerOf data = Inr a \<and>
         messages (state_of (resume_part clk res s)) =
           messages s @ [\<lparr>msg_id = clk (reads s), msg_text = a, sender = Assistant,
                          timestamp = clk (Suc (reads s))\<rparr>] \<and>
         messages (state_of (resume_page clk res p)) =
           messages p @ [\<lparr>msg_id = clk (reads p), msg_text = a, sender = Assistant,
                          timestamp = clk (Suc (reads p))\<rparr>])"
  proof
    assume "\<not> callFails res"
    with callFails_cases[of res] obtain status data a where
      r: "res = Response status (Some data)" and a: "answerOf data = Inr a" by blast
    show "\<exists>status data a. res = Response status (Some data) \<and> answerOf data = Inr a \<and>
         messages (state_of (resume_part clk res s)) =
           messages s @ [\<lparr>msg_id = clk (reads s), msg_text = a, sender = Assistant,
                          timestamp = clk (Suc (reads s))\<rparr>] \<and>
         messages (state_of (resume_page clk res p)) =
           messages p @ [\<lparr>msg_id = clk (reads p), msg_text = a, sender = Assistant,
                          timestamp = clk (Suc (reads p))\<rparr>]"
      using r a resume_part_answer[OF a, of clk status s] resume_page_answer[OF a, of clk status p]
      by (intro exI[of _ status] exI[of _ data] exI[of _ a]) simp
  qed
  have 3: "(map_of kvs (js ''answer'') = None \<longrightarrow> answerOf (JObject kvs) = Inr JUndefined) \<and>
   (map_of kvs (js ''answer'') = Some v \<longrightarrow> answerOf (JObject kvs) = Inr v)"
    by simp
  from 1 2 3 show ?thesis by blast
qed

lemma answerOf_server_error:
  "answerOf (JObject [(js ''detail'', JString (js ''Internal Server Error''))]) = Inr JUndefined"
  by (simp add: js_def)

theorem C3_status_and_shape_witness:
  "callFails NetworkFailure \<and>
   (\<exists>n. messages (state_of (resume_part int NetworkFailure asked_part)) =
           messages asked_part @ [errorMessage int n]) \<and>
   \<not> callFails server_error \<and>
   (\<exists>status data a. server_error = Response status (Some data) \<and> answerOf data = Inr a \<and>
      messages (state_of (resume_part int server_error asked_part)) =
        messages asked_part @ [\<lparr>msg_id = int (reads asked_part), msg_text = a, sender = Assistant,
                                 timestamp = int (Suc (reads asked_part))\<rparr>]) \<and>
   map_of [(js ''detail'', JString (js ''Internal Server Error''))] (js ''answer'') = None \<and>
   answerOf (JObject [(js ''detail'', JString (js ''Internal Server Error''))]) = Inr JUndefined \<and>
   map_of [(js ''answer'', JNumber ''42'')] (js ''answer'') = Some (JNumber ''42'') \<and>
   answerOf (JObject [(js ''answer'', JNumber ''42'')]) = Inr (JNumber ''42'')"
proof -
  have h: "callFails NetworkFailure" "\<not> callFails server_error"
    by (simp_all add: server_error_def)
  have m: "map_of [(js ''detail'', JString (js ''Internal Server Error''))] (js ''answer'') = None"
      "map_of [(js ''answer'', JNumber ''42'')] (js ''answer'') = Some (JNumber ''42'')"
    by (simp_all add: js_def)
  show ?thesis
    using h m
      C3_status_and_shape_unchecked[of NetworkFailure int asked_part asked_page
        "[(js ''detail'', JString (js ''Internal Server Error''))]" JUndefined]
      C3_status_and_shape_unchecked[of server_error int asked_part asked_page
        "[(js ''answer'', JNumber ''42'')]" "JNumber ''42''"]
    by blast
qed

text \<open>
  The claim as stated fails: a reply of status 500 without an \<^verbatim>\<open>answer\<close> field gives an
  assistant message whose text is \<^verbatim>\<open>undefined\<close>, and a reply of status 404 whose
  \<^verbatim>\<open>answer\<close> is a number gives that number; neither is the apology.
\<close>

theorem C3_malformed_reply_is_displayed:
  "map msg_text (messages (run_part int [Change home_run_question, Click, Settle 0 server_error]
                   (init_part int))) =
     [JString greeting, JString home_run_question, JUndefined] \<and>
   map msg_text (messages (run_page int [Change home_run_question, Click, Settle 0 numeric_answer]
                   (init_page int))) =
     [JString greeting, JString home_run_question, JNumber ''42''] \<and>
   JUndefined \<noteq> JString apology \<and> JNumber ''42'' \<noteq> JString apology"
  by (simp add: trim_home_run_question encode_home_run_question server_error_def numeric_answer_def
      answerOf_server_error init_part_def init_page_def initialMessages_def handler_defs setter_defs
      Let_def js_def)

section \<open>The outgoing request\<close>

lemma trim_padded_question: "trim padded_question = js ''a''"
  unfolding padded_question_def by code_simp

lemma encode_padded_question: "encodeURIComponent padded_question = Inr (js ''%20a'')"
  unfolding padded_question_def by code_simp

lemma encode_trimmed_padded_question: "encodeURIComponent (trim padded_question) = Inr (js ''a'')"
  unfolding padded_question_def by code_simp

lemma sent_handleSend_part:
  assumes "trim (inputValue s) \<noteq> []" and "\<not> isLoading s"
  shows "sent (state_of (handleSend_part clk s)) =
           sent s @ (case encodeURIComponent (inputValue s) of
                       Inl e \<Rightarrow> []
                     | Inr q \<Rightarrow> [chatRequest q])"
  by (simp add: handleSend_part_admitted[OF assms] chatRequest_def split: sum.splits)

lemma sent_handleSend_page:
  assumes "trim (inputValue p) \<noteq> []"
  shows "sent (state_of (handleSend_page clk p)) =
           sent p @ (case encodeURIComponent (inputValue p) of
                       Inl e \<Rightarrow> []
                     | Inr q \<Rightarrow> [chatRequest q])"
  by (simp add: handleSend_page_admitted[OF assms] chatRequest_def split: sum.splits)

lemma inputValue_handleSend_part:
  assumes "trim (inputValue s) \<noteq> []" and "\<not> isLoading s"
  shows "inputValue (state_of (handleSend_part clk s)) = []"
  by (simp add: handleSend_part_admitted[OF assms] split: sum.splits)

lemma inputValue_handleSend_page:
  assumes "trim (inputValue p) \<noteq> []"
  shows "inputValue (state_of (handleSend_page clk p)) = []"
  by (simp add: handleSend_page_admitted[OF assms] split: sum.splits)

text \<open>
  C7, as the code has it. For an admitted turn the question in the query of the request
  is \<^verbatim>\<open>encodeURIComponent(inputValue)\<close>: the submitted text encoded as it stands, not
  trimmed. The request is a POST to \<^verbatim>\<open>http://localhost:8000/chat?question=...\<close>, and it is
  the only call made. When the encoding throws, no call is made.
\<close>

theorem C7_request_is_encoded_untrimmed_draft:
  assumes "trim (inputValue s) \<noteq> []" and "\<not> isLoading s" and "trim (inputValue p) \<noteq> []"
  shows "sent (state_of (handleSend_part clk s)) =
           sent s @ (case encodeURIComponent (inputValue s) of
                       Inl e \<Rightarrow> []
                     | Inr q \<Rightarrow>
                         [\<lparr>url = js ''http://localhost:8000/chat?question='' @ q,
                           http_method = js ''POST''\<rparr>]) \<and>
         sent (state_of (handleSend_page clk p)) =
           sent p @ (case encodeURIComponent (inputValue p) of
                       Inl e \<Rightarrow> []
                     | Inr q \<Rightarrow>
                         [\<lparr>url = js ''http://localhost:8000/chat?question='' @ q,
                           http_method = js ''POST''\<rparr>])"
  using sent_handleSend_part[OF assms(1,2), of clk] sent_handleSend_page[OF assms(3), of clk]
  by (simp add: chatRequest_def chatURL_def split: sum.splits)

theorem C7_request_witness:
  "trim (inputValue ((init_part int)\<lparr>inputValue := padded_question\<rparr>)) \<noteq> [] \<and>
   \<not> isLoading ((init_part int)\<lparr>inputValue := padded_question\<rparr>) \<and>
   trim (inputValue ((init_page int)\<lparr>inputValue := padded_question\<rparr>)) \<noteq> [] \<and>
   sent (state_of (handleSend_part int ((init_part int)\<lparr>inputValue := padded_question\<rparr>))) =
     [\<lparr>url = js ''http://localhost:8000/chat?question=%20a'', http_method = js ''POST''\<rparr>] \<and>
   sent (state_of (handleSend_page int ((init_page int)\<lparr>inputValue := padded_question\<rparr>))) =
     [\<lparr>url = js ''http://localhost:8000/chat?question=%20a'', http_method = js ''POST''\<rparr>]"
proof -
  have a: "trim (inputValue ((init_part int)\<lparr>inputValue := padded_question\<rparr>)) \<noteq> []"
    by (simp add: trim_padded_question js_def)
  have b: "\<not> isLoading ((init_part int)\<lparr>inputValue := padded_question\<rparr>)"
    by (simp add: init_part_def)
  have c: "trim (inputValue ((init_page int)\<lparr>inputValue := padded_question\<rparr>)) \<noteq> []"
    by (simp add: trim_padded_question js_def)
  show ?thesis
    using a b c C7_request_is_encoded_untrimmed_draft[OF a b c, of int]
    by (simp add: encode_padded_question init_part_def init_page_def js_def)
qed

text \<open>
  The claim as stated fails: for the draft \<^verbatim>\<open>" a"\<close> the request carries \<^verbatim>\<open>%20a\<close>, the
  encoding of the untrimmed text, whereas the trimmed text encodes to \<^verbatim>\<open>a\<close>.
\<close>

theorem C7_leading_space_is_sent:
  "sent (run_part int [Change padded_question, Click] (init_part int)) = [chatRequest (js ''%20a'')] \<and>
   sent (run_page int [Change padded_question, Click] (init_page int)) = [chatRequest (js ''%20a'')] \<and>
   encodeURIComponent (trim padded_question) = Inr (js ''a'') \<and>
   chatRequest (js ''%20a'') \<noteq> chatRequest (js ''a'')"
proof -
  have a: "trim padded_question \<noteq> []"
    by (simp add: trim_padded_question js_def)
  show ?thesis
    using a
    by (simp add: encode_padded_question encode_trimmed_padded_question chatRequest_def chatURL_def
        init_part_def init_page_def handler_defs setter_defs Let_def)
       (simp add: js_def)
qed

section \<open>The draft is captured before it is cleared\<close>

text \<open>
  C10. An admitted turn clears the draft and, in the same run, sends the request built
  from the draft as it was when the handler was called: the question of the request is
  the encoding of that text, which is not empty, and so differs from the encoding of the
  cleared draft. If that text cannot be encoded, nothing is sent.
\<close>

theorem C10_request_uses_captured_draft:
  assumes "trim (inputValue s) \<noteq> []" and "\<not> isLoading s" and "trim (inputValue p) \<noteq> []"
  shows "inputValue (state_of (handleSend_part clk s)) = [] \<and>
         inputValue (state_of (handleSend_page clk p)) = [] \<and>
         sent (state_of (handleSend_part clk s)) =
           sent s @ (case encodeURIComponent (inputValue s) of
                       Inl e \<Rightarrow> [] | Inr q \<Rightarrow> [chatRequest q]) \<and>
         sent (state_of (handleSend_page clk p)) =
           sent p @ (case encodeURIComponent (inputValue p) of
                       Inl e \<Rightarrow> [] | Inr q \<Rightarrow> [chatRequest q]) \<and>
         encodeURIComponent (inputValue (state_of (handleSend_part clk s))) = Inr [] \<and>
         encodeURIComponent (inputValue (state_of (handleSend_page clk p))) = Inr [] \<and>
         (\<forall>q. encodeURIComponent (inputValue s) = Inr q \<longrightarrow> q \<noteq> [] \<and> chatRequest q \<noteq> chatRequest []) \<and>
         (\<forall>q. encodeURIComponent (inputValue p) = Inr q \<longrightarrow> q \<noteq> [] \<and> chatRequest q \<noteq> chatRequest [])"
proof -
  have s0: "inputValue s \<noteq> []" and p0: "inputValue p \<noteq> []"
    using assms by (auto dest: trim_not_Nil)
  have 1: "inputValue (state_of (handleSend_part clk s)) = []"
    by (rule inputValue_handleSend_part[OF assms(1,2)])
  have 2: "inputValue (state_of (handleSend_page clk p)) = []"
    by (rule inputValue_handleSend_page[OF assms(3)])
  have 3: "\<forall>q. encodeURIComponent (inputValue s) = Inr q \<longrightarrow> q \<noteq> [] \<and> chatRequest q \<noteq> chatRequest []"
    using encodeURIComponent_not_Nil[OF _ s0] by (auto simp: chatRequest_def chatURL_def)
  have 4: "\<forall>q. encodeURIComponent (inputValue p) = Inr q \<longrightarrow> q \<noteq> [] \<and> chatRequest q \<noteq> chatRequest []"
    using encodeURIComponent_not_Nil[OF _ p0] by (auto simp: chatRequest_def chatURL_def)
  show ?thesis
    using 1 2 3 4 sent_handleSend_part[OF assms(1,2), of clk] sent_handleSend_page[OF assms(3), of clk]
    by simp
qed

theorem C10_captured_draft_witness:
  "trim (inputValue ((init_part int)\<lparr>inputValue := home_run_question\<rparr>)) \<noteq> [] \<and>
   \<not> isLoading ((init_part int)\<lparr>inputValue := home_run_question\<rparr>) \<and>
   trim (inputValue ((init_page int)\<lparr>inputValue := home_run_question\<rparr>)) \<noteq> [] \<and>
   inputValue (state_of (handleSend_part int ((init_part int)\<lparr>inputValue := home_run_question\<rparr>))) = [] \<and>
   sent (state_of (handleSend_part int ((init_part int)\<lparr>inputValue := home_run_question\<rparr>))) =
     [chatRequest (js ''Who%20hit%20the%20most%20home%20runs%20in%202023%3F'')] \<and>
   sent (state_of (handleSend_page int ((init_page int)\<lparr>inputValue := home_run_question\<rparr>))) =
     [chatRequest (js ''Who%20hit%20the%20most%20home%20runs%20in%202023%3F'')] \<and>
   chatRequest (js ''Who%20hit%20the%20most%20home%20runs%20in%202023%3F'') \<noteq> chatRequest []"
proof -
  have a: "trim (inputValue ((init_part int)\<lparr>inputValue := home_run_question\<rparr>)) \<noteq> []"
    by (simp add: trim_home_run_question)
  have b: "\<not> isLoading ((init_part int)\<lparr>inputValue := home_run_question\<rparr>)"
    by (simp add: init_part_def)
  have c: "trim (inputValue ((init_page int)\<lparr>inputValue := home_run_question\<rparr>)) \<noteq> []"
    by (simp add: trim_home_run_question)
  show ?thesis
    using a b c C10_request_uses_captured_draft[OF a b c, of int]
    by (simp add: encode_home_run_question init_part_def init_page_def)
qed

section \<open>The log only grows\<close>

lemma handleSend_part_appends:
  "\<exists>ms. messages (state_of (handleSend_part clk s)) = messages s @ ms"
proof (cases "trim (inputValue s) = [] \<or> isLoading s")
  case True
  then have "handleSend_part clk s = Returned s"
    by (auto simp: handleSend_part_blank handleSend_part_loading)
  then show ?thesis by simp
next
  case False
  then have "trim (inputValue s) \<noteq> []" "\<not> isLoading s" by simp_all
  from handleSend_part_admitted[OF this, of clk] show ?thesis
    by (cases "encodeURIComponent (inputValue s)") simp_all
qed

lemma handleSend_page_appends:
  "\<exists>ms. messages (state_of (handleSend_page clk s)) = messages s @ ms"
proof (cases "trim (inputValue s) = []")
  case True
  then show ?thesis by (simp add: handleSend_page_blank)
next
  case False
  from handleSend_page_admitted[OF this, of clk] show ?thesis
    by (cases "encodeURIComponent (inputValue s)") simp_all
qed

lemma resume_part_appends:
  "\<exists>ms. messages (state_of (resume_part clk res s)) = messages s @ ms"
  using callFails_cases[of res]
proof
  assume "callFails res"
  from resume_part_fails[OF this, of clk s] show ?thesis by auto
next
  assume "\<exists>status data a. res = Response status (Some data) \<and> answerOf data = Inr a"
  then obtain status data a where "res = Response status (Some data)" "answerOf data = Inr a"
    by blast
  then show ?thesis using resume_part_answer[of data a clk status s] by simp
qed

lemma resume_page_appends:
  "\<exists>ms. messages (state_of (resume_page clk res s)) = messages s @ ms"
  using callFails_cases[of res]
proof
  assume "callFails res"
  from resume_page_fails[OF this, of clk s] show ?thesis by auto
next
  assume "\<exists>status data a. res = Response status (Some data) \<and> answerOf data = Inr a"
  then obtain status data a where "res = Response status (Some data)" "answerOf data = Inr a"
    by blast
  then show ?thesis using resume_page_answer[of data a clk status s] by simp
qed

lemma step_part_appends: "\<exists>ms. messages (step_part clk e s) = messages s @ ms"
proof (cases e)
  case (Change v)
  then show ?thesis by (simp add: setInputValue_def)
next
  case Click
  then show ?thesis using handleSend_part_appends[of clk s] by simp
next
  case (KeyDown key shiftKey)
  then show ?thesis using handleSend_part_appends[of clk s] by (simp add: handleKeyPress_part_def)
next
  case (Settle i res)
  then show ?thesis using resume_part_appends[of clk res "settled i s"] by (simp add: settled_def)
qed

lemma step_page_appends: "\<exists>ms. messages (step_page clk e s) = messages s @ ms"
proof (cases e)
  case (Change v)
  then show ?thesis by (simp add: setInputValue_def)
next
  case Click
  then show ?thesis using handleSend_page_appends[of clk s] by simp
next
  case (KeyDown key shiftKey)
  then show ?thesis using handleSend_page_appends[of clk s] by (simp add: handleKeyPress_page_def)
next
  case (Settle i res)
  then show ?thesis using resume_page_appends[of clk res "settled i s"] by (simp add: settled_def)
qed

lemma reachable_part_log: "reachable_part clk s \<Longrightarrow> \<exists>ms. messages s = initialMessages clk @ ms"
proof (induction rule: reachable_part.induct)
  case rp_init
  then show ?case by (simp add: init_part_def)
next
  case (rp_step s e)
  then obtain ms where "messages s = initialMessages clk @ ms" by blast
  moreover obtain ms' where "messages (step_part clk e s) = messages s @ ms'"
    using step_part_appends by blast
  ultimately show ?case by simp
qed

lemma reachable_page_log: "reachable_page clk s \<Longrightarrow> \<exists>ms. messages s = initialMessages clk @ ms"
proof (induction rule: reachable_page.induct)
  case rg_init
  then show ?case by (simp add: init_page_def)
next
  case (rg_step s e)
  then obtain ms where "messages s = initialMessages clk @ ms" by blast
  moreover obtain ms' where "messages (step_page clk e s) = messages s @ ms'"
    using step_page_appends by blast
  ultimately show ?case by simp
qed

text \<open>
  C9. In every state either component can reach, the log is not empty and begins with the
  fixed greeting of the assistant; and whatever happens next (a change of the draft, a
  click, a key, a call settling), the log before is a prefix of the log after.
\<close>

theorem C9_log_is_seeded_and_append_only:
  assumes "reachable_part clk s" and "reachable_page clk p"
  shows "messages s \<noteq> [] \<and>
         hd (messages s) =
           \<lparr>msg_id = 1, msg_text = JString greeting, sender = Assistant, timestamp = clk 0\<rparr> \<and>
         prefix (messages s) (messages (step_part clk e s)) \<and>
         messages p \<noteq> [] \<and>
         hd (messages p) =
           \<lparr>msg_id = 1, msg_text = JString greeting, sender = Assistant, timestamp = clk 0\<rparr> \<and>
         prefix (messages p) (messages (step_page clk e p))"
proof -
  from reachable_part_log[OF assms(1)] obtain ms where s: "messages s = initialMessages clk @ ms"
    by blast
  from reachable_page_log[OF assms(2)] obtain ns where p: "messages p = initialMessages clk @ ns"
    by blast
  have "prefix (messages s) (messages (step_part clk e s))"
    using step_part_appends[of clk e s] by (auto simp: prefix_def)
  moreover have "prefix (messages p) (messages (step_page clk e p))"
    using step_page_appends[of clk e p] by (auto simp: prefix_def)
  ultimately show ?thesis using s p by (simp add: initialMessages_def)
qed

lemma reachable_asked_part: "reachable_part int asked_part"
  unfolding asked_part_def run_part.simps by (intro rp_step rp_init)

lemma reachable_asked_page: "reachable_page int asked_page"
  unfolding asked_page_def run_page.simps by (intro rg_step rg_init)

theorem C9_log_witness:
  "reachable_part int asked_part \<and> reachable_page int asked_page \<and>
   hd (messages asked_part) =
     \<lparr>msg_id = 1, msg_text = JString greeting, sender = Assistant, timestamp = 0\<rparr> \<and>
   prefix (messages asked_part) (messages (step_part int (Settle 0 ohtani) asked_part)) \<and>
   messages (step_part int (Settle 0 ohtani) asked_part) =
     messages asked_part @
       [\<lparr>msg_id = 3, msg_text = JString (js ''Shohei Ohtani''), sender = Assistant, timestamp = 4\<rparr>] \<and>
   prefix (messages asked_page) (messages (step_page int (Settle 0 NetworkFailure) asked_page))"
proof -
  have m: "messages (step_part int (Settle 0 ohtani) asked_part) =
     messages asked_part @
       [\<lparr>msg_id = 3, msg_text = JString (js ''Shohei Ohtani''), sender = Assistant, timestamp = 4\<rparr>]"
    by (simp add: asked_part_eq ohtani_def answerOf_ohtani handler_defs setter_defs Let_def)
  show ?thesis
    using m reachable_asked_part reachable_asked_page
      C9_log_is_seeded_and_append_only[OF reachable_asked_part reachable_asked_page, of "Settle 0 ohtani"]
      C9_log_is_seeded_and_append_only[OF reachable_asked_part reachable_asked_page, of "Settle 0 NetworkFailure"]
    by simp
qed

section \<open>The two components on single-flight runs\<close>

lemma forget_loading_eq_iff:
  "forget_loading s = p \<longleftrightarrow>
     messages s = messages p \<and> inputValue s = inputValue p \<and> inflight s = inflight p \<and>
     sent s = sent p \<and> reads s = reads p"
  by (cases p) (auto simp: forget_loading_def)

lemmas resume_defs =
  resume_part_def resume_page_def tryResume_def catchBlock_def finallyBlock_def
  setMessages_def setIsLoading_def tick_def

lemma agree_init: "agree (init_part clk) (init_page clk)"
  by (simp add: agree_def forget_loading_eq_iff init_part_def init_page_def)

lemma agree_handleSend:
  assumes "agree s p" and "trim (inputValue p) \<noteq> [] \<longrightarrow> inflight p = []"
  shows "agree (state_of (handleSend_part clk s)) (state_of (handleSend_page clk p))"
proof (cases "trim (inputValue p) = []")
  case True
  moreover from assms(1) have "inputValue s = inputValue p"
    by (auto simp: agree_def forget_loading_eq_iff)
  ultimately show ?thesis using assms(1)
    by (simp add: handleSend_part_blank handleSend_page_blank)
next
  case False
  from assms(1) have eq: "inputValue s = inputValue p" "messages s = messages p"
      "inflight s = inflight p" "sent s = sent p" "reads s = reads p"
    by (auto simp: agree_def forget_loading_eq_iff)
  from False assms(2) have idle: "inflight p = []" by simp
  with assms(1) eq have nl: "\<not> isLoading s" by (simp add: agree_def)
  from False eq have ts: "trim (inputValue s) \<noteq> []" by simp
  show ?thesis
    using handleSend_part_admitted[OF ts nl, of clk] handleSend_page_admitted[OF False, of clk]
      eq idle assms(1)
    by (cases "encodeURIComponent (inputValue p)") (auto simp: agree_def forget_loading_eq_iff)
qed

lemma agree_resume:
  assumes "agree s p" and "i < length (inflight p)"
  shows "agree (state_of (resume_part clk res (settled i s))) (state_of (resume_page clk res (settled i p)))"
proof -
  from assms(1) have eq: "inputValue s = inputValue p" "messages s = messages p"
      "inflight s = inflight p" "sent s = sent p" "reads s = reads p"
    and le: "length (inflight s) \<le> 1"
    by (auto simp: agree_def forget_loading_eq_iff)
  from le assms(2) eq have i0: "i = 0" and one: "length (inflight p) = 1" by simp_all
  then have gone: "inflight (settled i s) = []" "inflight (settled i p) = []"
    using eq by (simp_all add: settled_def)
  have same: "messages (settled i s) = messages (settled i p)"
     "reads (settled i s) = reads (settled i p)" "inputValue (settled i s) = inputValue (settled i p)"
     "sent (settled i s) = sent (settled i p)"
    using eq by (simp_all add: settled_def)
  from callFails_cases[of res] show ?thesis
  proof
    assume f: "callFails res"
    show ?thesis
    proof (cases res)
      case NetworkFailure
      then show ?thesis using gone same
        by (simp add: agree_def forget_loading_eq_iff resume_defs)
    next
      case (Response status body)
      with f show ?thesis using gone same
        by (cases body) (auto simp: agree_def forget_loading_eq_iff resume_defs)
    qed
  next
    assume "\<exists>status data a. res = Response status (Some data) \<and> answerOf data = Inr a"
    then obtain status data a where r: "res = Response status (Some data)" and a: "answerOf data = Inr a"
      by blast
    show ?thesis
      using resume_part_answer[OF a, of clk status "settled i s"]
        resume_page_answer[OF a, of clk status "settled i p"] r gone same
      by (simp add: agree_def forget_loading_eq_iff)
  qed
qed

lemma agree_step:
  assumes "agree s p" and "submits e \<and> trim (inputValue p) \<noteq> [] \<longrightarrow> inflight p = []"
  shows "agree (step_part clk e s) (step_page clk e p)"
proof (cases e)
  case (Change v)
  with assms(1) show ?thesis by (auto simp: agree_def forget_loading_eq_iff setInputValue_def)
next
  case Click
  from assms(1) have eq: "inputValue s = inputValue p" "inflight s = inflight p"
    and ld: "isLoading s \<longleftrightarrow> inflight s \<noteq> []"
    by (auto simp: agree_def forget_loading_eq_iff)
  show ?thesis
  proof (cases "trim (inputValue p) = []")
    case True
    with Click eq assms(1) show ?thesis by simp
  next
    case False
    with Click assms(2) have "inflight p = []" by simp
    with eq ld have "\<not> isLoading s" by simp
    with Click False eq show ?thesis
      using agree_handleSend[OF assms(1), of clk] assms(2) by simp
  qed
next
  case (KeyDown key shiftKey)
  show ?thesis
  proof (cases "key = js ''Enter'' \<and> \<not> shiftKey")
    case True
    with KeyDown assms(2) have "trim (inputValue p) \<noteq> [] \<longrightarrow> inflight p = []" by simp
    from agree_handleSend[OF assms(1) this, of clk] KeyDown True show ?thesis
      by (simp add: handleKeyPress_part_def handleKeyPress_page_def)
  next
    case False
    with KeyDown assms(1) show ?thesis
      by (auto simp: handleKeyPress_part_def handleKeyPress_page_def)
  qed
next
  case (Settle i res)
  from assms(1) have eq: "inflight s = inflight p" by (auto simp: agree_def forget_loading_eq_iff)
  show ?thesis
  proof (cases "i < length (inflight p)")
    case True
    with Settle eq agree_resume[OF assms(1) True, of clk res] show ?thesis by simp
  next
    case False
    with Settle eq assms(1) show ?thesis by simp
  qed
qed

lemma agree_run:
  "agree s p \<Longrightarrow> single_flight clk evs p \<Longrightarrow> agree (run_part clk evs s) (run_page clk evs p)"
proof (induction evs arbitrary: s p)
  case Nil
  then show ?case by simp
next
  case (Cons e es)
  from Cons.prems have "agree (step_part clk e s) (step_page clk e p)"
    by (simp add: agree_step)
  moreover from Cons.prems have "single_flight clk es (step_page clk e p)" by simp
  ultimately show ?case using Cons.IH by simp
qed

text \<open>
  C2, as the code has it. On every sequence of events in which \<^verbatim>\<open>handleSend\<close> is not
  called with a non-blank draft while a call is in flight, the two components go through
  the same states: the same log (ids, texts, senders, timestamps), the same draft, the
  same calls made and in flight; and \<^verbatim>\<open>isLoading\<close> of \<^verbatim>\<open>part_000\<close> is true exactly while
  a call is in flight.
\<close>

theorem C2_variants_agree_on_single_flight_runs:
  assumes "single_flight clk evs (init_page clk)"
  shows "forget_loading (run_part clk evs (init_part clk)) = run_page clk evs (init_page clk) \<and>
         messages (run_part clk evs (init_part clk)) = messages (run_page clk evs (init_page clk)) \<and>
         (isLoading (run_part clk evs (init_part clk)) \<longleftrightarrow>
            inflight (run_page clk evs (init_page clk)) \<noteq> [])"
proof -
  from agree_run[OF agree_init assms]
  have a: "agree (run_part clk evs (init_part clk)) (run_page clk evs (init_page clk))" .
  then have "forget_loading (run_part clk evs (init_part clk)) = run_page clk evs (init_page clk)"
    by (simp add: agree_def)
  moreover from this have "messages (run_part clk evs (init_part clk)) = messages (run_page clk evs (init_page clk))"
    by (simp add: forget_loading_eq_iff)
  moreover from a have "isLoading (run_part clk evs (init_part clk)) \<longleftrightarrow>
            inflight (run_page clk evs (init_page clk)) \<noteq> []"
    by (auto simp: agree_def forget_loading_eq_iff)
  ultimately show ?thesis by blast
qed

lemma single_flight_home_run:
  "single_flight int [Change home_run_question, Click, Settle 0 ohtani] (init_page int)"
  by (simp add: init_page_def setInputValue_def)

theorem C2_single_flight_witness:
  "single_flight int [Change home_run_question, Click, Settle 0 ohtani] (init_page int) \<and>
   forget_loading (run_part int [Change home_run_question, Click, Settle 0 ohtani] (init_part int)) =
     run_page int [Change home_run_question, Click, Settle 0 ohtani] (init_page int) \<and>
   messages (run_page int [Change home_run_question, Click, Settle 0 ohtani] (init_page int)) =
     initialMessages int @
     [\<lparr>msg_id = 1, msg_text = JString home_run_question, sender = User, timestamp = 2\<rparr>,
      \<lparr>msg_id = 3, msg_text = JString (js ''Shohei Ohtani''), sender = Assistant, timestamp = 4\<rparr>]"
proof -
  have m: "messages (run_part int [Change home_run_question, Click, Settle 0 ohtani] (init_part int)) =
     initialMessages int @
     [\<lparr>msg_id = 1, msg_text = JString home_run_question, sender = User, timestamp = 2\<rparr>,
      \<lparr>msg_id = 3, msg_text = JString (js ''Shohei Ohtani''), sender = Assistant, timestamp = 4\<rparr>]"
    by (simp add: trim_home_run_question encode_home_run_question ohtani_def answerOf_ohtani
      init_part_def initialMessages_def handler_defs setter_defs Let_def)
  show ?thesis
    using m single_flight_home_run C2_variants_agree_on_single_flight_runs[OF single_flight_home_run]
    by simp
qed

lemma trim_second_question: "trim (js ''And in 2022?'') \<noteq> []"
  by (simp add: trim_Nil_iff js_def isWhiteSpace_def)

lemma encode_second_question: "encodeURIComponent (js ''And in 2022?'') = Inr (js ''And%20in%202022%3F'')"
  by code_simp

text \<open>
  The claim as stated fails: when a second draft is sent with the Enter key while the
  first call is in flight, \<^verbatim>\<open>page.tsx\<close> appends a second user message and makes a second
  call, and \<^verbatim>\<open>part_000\<close> does neither.
\<close>

theorem C2_variants_differ_while_in_flight:
  "map msg_text (messages (run_page int two_sends (init_page int))) =
     [JString greeting, JString home_run_question, JString (js ''And in 2022?'')] \<and>
   map msg_text (messages (run_part int two_sends (init_part int))) =
     [JString greeting, JString home_run_question] \<and>
   length (sent (run_page int two_sends (init_page int))) = 2 \<and>
   length (sent (run_part int two_sends (init_part int))) = 1 \<and>
   inputValue (run_page int two_sends (init_page int)) = [] \<and>
   inputValue (run_part int two_sends (init_part int)) = js ''And in 2022?''"
  by (simp add: two_sends_def trim_home_run_question encode_home_run_question
      trim_second_question encode_second_question
      init_part_def init_page_def initialMessages_def handler_defs setter_defs Let_def)

section \<open>Submitting while a call is in flight\<close>

text \<open>
  C1 at \<^verbatim>\<open>src/frontend/src/app/page.tsx\<close>. With the first call still in flight and a second
  draft typed, \<^verbatim>\<open>handleSend\<close> of \<^verbatim>\<open>page.tsx\<close> appends a second user message, clears the
  draft and makes a second call, so that two calls are in flight; \<^verbatim>\<open>handleSend\<close> of
  \<^verbatim>\<open>part_000\<close> returns with the state unchanged at the corresponding state.
\<close>

theorem C1_page_submits_while_in_flight:
  "inflight second_draft_page =
     [chatRequest (js ''Who%20hit%20the%20most%20home%20runs%20in%202023%3F'')] \<and>
   handleSend_page int second_draft_page =
     Awaiting (second_draft_page
       \<lparr>messages := messages second_draft_page @ [userMessage int 3 (js ''And in 2022?'')],
        inputValue := [],
        inflight := [chatRequest (js ''Who%20hit%20the%20most%20home%20runs%20in%202023%3F''),
                     chatRequest (js ''And%20in%202022%3F'')],
        sent := [chatRequest (js ''Who%20hit%20the%20most%20home%20runs%20in%202023%3F''),
                 chatRequest (js ''And%20in%202022%3F'')],
        reads := 5\<rparr>) \<and>
   isLoading second_draft_part = True \<and>
   inflight second_draft_part =
     [chatRequest (js ''Who%20hit%20the%20most%20home%20runs%20in%202023%3F'')] \<and>
   handleSend_part int second_draft_part = Returned second_draft_part"
proof -
  have p: "second_draft_page = asked_page\<lparr>inputValue := js ''And in 2022?''\<rparr>"
    by (simp add: second_draft_page_def setInputValue_def)
  have t: "trim (inputValue second_draft_page) \<noteq> []"
    by (simp add: p trim_second_question)
  have l: "isLoading second_draft_part"
    by (simp add: second_draft_part_def setInputValue_def asked_part_eq)
  have i: "inflight second_draft_part =
     [chatRequest (js ''Who%20hit%20the%20most%20home%20runs%20in%202023%3F'')]"
    by (simp add: second_draft_part_def setInputValue_def asked_part_eq)
  show ?thesis
    using l i handleSend_part_loading[OF l, of int] handleSend_page_admitted[OF t, of int]
    by (simp add: p asked_page_eq encode_second_question chatRequest_def)
qed

section \<open>Message ids\<close>

text \<open>
  C8 at a failing input. The id of a message is the reading of \<^verbatim>\<open>Date.now()\<close> at its
  creation. When the draft cannot be encoded, the user message and the apology are
  created in the same synchronous run; when the call is rejected at once, they are
  created shortly after one another. With both readings in the same millisecond the two
  messages of the turn have the same id.
\<close>

theorem C8_same_millisecond_same_id:
  "map msg_id (messages (run_part same_millisecond [Change lone_surrogate, Click]
                  (init_part same_millisecond))) =
     [1, 1700000000000, 1700000000000] \<and>
   map msg_id (messages (run_page same_millisecond [Change lone_surrogate, Click]
                  (init_page same_millisecond))) =
     [1, 1700000000000, 1700000000000] \<and>
   map msg_id (messages (run_part same_millisecond
                  [Change home_run_question, Click, Settle 0 NetworkFailure]
                  (init_part same_millisecond))) =
     [1, 1700000000000, 1700000000000] \<and>
   \<not> distinct [1, 1700000000000, 1700000000000 :: int]"
  by (simp add: trim_lone_surrogate encode_lone_surrogate trim_home_run_question
      encode_home_run_question same_millisecond_def
      init_part_def init_page_def initialMessages_def handler_defs setter_defs Let_def)

section \<open>Ids on a clock that advances\<close>

lemma reads_on_refl: "reads_on clk s s"
  unfolding reads_on_def by (intro exI[of _ "[]"]) simp

lemma reads_on_same:
  assumes "messages s' = messages s" and "reads s' = reads s"
  shows "reads_on clk s s'"
  unfolding reads_on_def using assms by (intro exI[of _ "[]"]) simp

lemma reads_on_one:
  assumes "messages s' = messages s @ [m]" and "msg_id m = clk k"
    and "reads s \<le> k" and "k < reads s'"
  shows "reads_on clk s s'"
  unfolding reads_on_def using assms by (intro exI[of _ "[k]"]) simp

lemma reads_on_two:
  assumes "messages s' = messages s @ [m, m']" and "msg_id m = clk k" and "msg_id m' = clk k'"
    and "reads s \<le> k" and "k < k'" and "k' < reads s'"
  shows "reads_on clk s s'"
  unfolding reads_on_def using assms by (intro exI[of _ "[k, k']"]) simp

lemma ids_from_clock_step:
  assumes "ids_from_clock clk s" and "reads_on clk s s'"
  shows "ids_from_clock clk s'"
proof -
  from assms(1) have pos: "0 < reads s" by (simp add: ids_from_clock_def)
  from assms(1) obtain ks where ks: "map msg_id (messages s) = 1 # map clk ks" "sorted_wrt (<) ks"
      "list_all (\<lambda>k. 0 < k \<and> k < reads s) ks"
    by (auto simp: ids_from_clock_def)
  from assms(2) obtain js where js: "map msg_id (messages s') = map msg_id (messages s) @ map clk js"
      "sorted_wrt (<) js" "list_all (\<lambda>k. reads s \<le> k \<and> k < reads s') js" "reads s \<le> reads s'"
    by (auto simp: reads_on_def)
  have "map msg_id (messages s') = 1 # map clk (ks @ js)" using ks(1) js(1) by simp
  moreover have "sorted_wrt (<) (ks @ js)"
    using ks(2,3) js(2,3) by (fastforce simp: sorted_wrt_append list_all_iff)
  moreover have "list_all (\<lambda>k. 0 < k \<and> k < reads s') (ks @ js)"
    using ks(3) js(3,4) pos by (fastforce simp: list_all_iff)
  moreover have "0 < reads s'" using pos js(4) by simp
  ultimately show ?thesis
    unfolding ids_from_clock_def by (intro conjI exI[of _ "ks @ js"])
qed

lemma reads_on_handleSend_part: "reads_on clk s (state_of (handleSend_part clk s))"
proof (cases "trim (inputValue s) = [] \<or> isLoading s")
  case True
  then have "handleSend_part clk s = Returned s"
    by (auto simp: handleSend_part_blank handleSend_part_loading)
  then show ?thesis by (simp add: reads_on_refl)
next
  case False
  then have a: "trim (inputValue s) \<noteq> []" "\<not> isLoading s" by simp_all
  show ?thesis
  proof (cases "encodeURIComponent (inputValue s)")
    case (Inl e)
    show ?thesis
      by (rule reads_on_two[where k = "reads s" and k' = "reads s + 2"])
         (simp_all add: handleSend_part_admitted[OF a] Inl userMessage_def errorMessage_def)+
  next
    case (Inr q)
    show ?thesis
      by (rule reads_on_one[where k = "reads s"])
         (simp_all add: handleSend_part_admitted[OF a] Inr userMessage_def)+
  qed
qed

lemma reads_on_handleSend_page: "reads_on clk s (state_of (handleSend_page clk s))"
proof (cases "trim (inputValue s) = []")
  case True
  then show ?thesis by (simp add: handleSend_page_blank reads_on_refl)
next
  case a: False
  show ?thesis
  proof (cases "encodeURIComponent (inputValue s)")
    case (Inl e)
    show ?thesis
      by (rule reads_on_two[where k = "reads s" and k' = "reads s + 2"])
         (simp_all add: handleSend_page_admitted[OF a] Inl userMessage_def errorMessage_def)+
  next
    case (Inr q)
    show ?thesis
      by (rule reads_on_one[where k = "reads s"])
         (simp_all add: handleSend_page_admitted[OF a] Inr userMessage_def)+
  qed
qed

lemma reads_on_resume_part: "reads_on clk s (state_of (resume_part clk res (settled i s)))"
proof (cases res)
  case NetworkFailure
  show ?thesis
    by (rule reads_on_one[where k = "reads s"]) (simp_all add: NetworkFailure resume_defs settled_def)+
next
  case (Response status body)
  show ?thesis
  proof (cases body)
    case None
    show ?thesis
      by (rule reads_on_one[where k = "reads s"]) (simp_all add: Response None resume_defs settled_def)+
  next
    case (Some data)
    show ?thesis
    proof (cases "answerOf data")
      case (Inl e)
      show ?thesis
        by (rule reads_on_one[where k = "Suc (reads s)"])
           (simp_all add: Response Some Inl resume_defs settled_def)+
    next
      case (Inr a)
      show ?thesis
        by (rule reads_on_one[where k = "reads s"])
           (simp_all add: Response Some Inr resume_defs settled_def)+
    qed
  qed
qed

lemma reads_on_resume_page: "reads_on clk s (state_of (resume_page clk res (settled i s)))"
proof (cases res)
  case NetworkFailure
  show ?thesis
    by (rule reads_on_one[where k = "reads s"]) (simp_all add: NetworkFailure resume_defs settled_def)+
next
  case (Response status body)
  show ?thesis
  proof (cases body)
    case None
    show ?thesis
      by (rule reads_on_one[where k = "reads s"]) (simp_all add: Response None resume_defs settled_def)+
  next
    case (Some data)
    show ?thesis
    proof (cases "answerOf data")
      case (Inl e)
      show ?thesis
        by (rule reads_on_one[where k = "Suc (reads s)"])
           (simp_all add: Response Some Inl resume_defs settled_def)+
    next
      case (Inr a)
      show ?thesis
        by (rule reads_on_one[where k = "reads s"])
           (simp_all add: Response Some Inr resume_defs settled_def)+
    qed
  qed
qed

lemma reads_on_step_part: "reads_on clk s (step_part clk e s)"
proof (cases e)
  case (Change v)
  then show ?thesis by (simp add: reads_on_same setInputValue_def)
next
  case Click
  then show ?thesis by (simp add: reads_on_refl reads_on_handleSend_part)
next
  case (KeyDown key shiftKey)
  then show ?thesis by (simp add: handleKeyPress_part_def reads_on_refl reads_on_handleSend_part)
next
  case (Settle i res)
  then show ?thesis by (simp add: reads_on_refl reads_on_resume_part)
qed

lemma reads_on_step_page: "reads_on clk s (step_page clk e s)"
proof (cases e)
  case (Change v)
  then show ?thesis by (simp add: reads_on_same setInputValue_def)
next
  case Click
  then show ?thesis by (simp add: reads_on_refl reads_on_handleSend_page)
next
  case (KeyDown key shiftKey)
  then show ?thesis by (simp add: handleKeyPress_page_def reads_on_refl reads_on_handleSend_page)
next
  case (Settle i res)
  then show ?thesis by (simp add: reads_on_refl reads_on_resume_page)
qed

lemma reachable_part_ids: "reachable_part clk s \<Longrightarrow> ids_from_clock clk s"
proof (induction rule: reachable_part.induct)
  case rp_init
  show ?case
    unfolding ids_from_clock_def
    by (intro conjI exI[of _ "[]"]) (simp_all add: init_part_def initialMessages_def)
next
  case (rp_step s e)
  then show ?case using ids_from_clock_step reads_on_step_part by blast
qed

lemma reachable_page_ids: "reachable_page clk s \<Longrightarrow> ids_from_clock clk s"
proof (induction rule: reachable_page.induct)
  case rg_init
  show ?case
    unfolding ids_from_clock_def
    by (intro conjI exI[of _ "[]"]) (simp_all add: init_page_def initialMessages_def)
next
  case (rg_step s e)
  then show ?case using ids_from_clock_step reads_on_step_page by blast
qed

lemma ids_from_clock_distinct:
  assumes "ids_from_clock clk s" and "strict_mono clk" and "1 \<le> clk 0"
  shows "distinct (map msg_id (messages s))"
proof -
  from assms(1) obtain ks where ks: "map msg_id (messages s) = 1 # map clk ks" "sorted_wrt (<) ks"
      "list_all (\<lambda>k. 0 < k \<and> k < reads s) ks"
    by (auto simp: ids_from_clock_def)
  have "distinct ks" using ks(2) by (simp add: strict_sorted_iff)
  then have "distinct (map clk ks)"
    using assms(2) by (simp add: distinct_map strict_mono_eq inj_on_def)
  moreover have "1 \<notin> set (map clk ks)"
  proof
    assume "1 \<in> set (map clk ks)"
    then obtain k where "k \<in> set ks" "clk k = 1" by auto
    moreover from this ks(3) have "0 < k" by (simp add: list_all_iff)
    then have "clk 0 < clk k" using assms(2) by (simp add: strict_mono_less)
    ultimately show False using assms(3) by simp
  qed
  ultimately show ?thesis using ks(1) by simp
qed

text \<open>
  Where each clock reading is later than the one before, the ids of a log are distinct:
  equal ids arise from equal readings only.
\<close>

lemma ids_distinct_on_advancing_clock:
  assumes "strict_mono clk" and "1 \<le> clk 0"
  shows "reachable_part clk s \<Longrightarrow> distinct (map msg_id (messages s))"
    and "reachable_page clk p \<Longrightarrow> distinct (map msg_id (messages p))"
  using assms by (auto dest: reachable_part_ids reachable_page_ids intro: ids_from_clock_distinct)

end
